theory Spec2Isabelle
  imports Main "HOL-Library.AList" "HOL-Library.Sublist"
begin

section \<open>Strings: QString::split and QStringList::join\<close>

text \<open>
  \<^verbatim>\<open>QString::split(sep, KeepEmptyParts)\<close>: the pieces between the separators, the
  empty ones included; the empty string has the one piece \<open>''''\<close>.
\<close>

fun split_keep :: "char \<Rightarrow> string \<Rightarrow> string list" where
  "split_keep sep [] = [[]]"
| "split_keep sep (c # cs) =
     (if c = sep then [] # split_keep sep cs
      else (case split_keep sep cs of
              [] \<Rightarrow> [[c]]
            | w # ws \<Rightarrow> (c # w) # ws))"

text \<open>\<^verbatim>\<open>QString::split(sep, Qt::SkipEmptyParts)\<close>: the same pieces without the empty ones.\<close>

definition split_skip_empty :: "char \<Rightarrow> string \<Rightarrow> string list" where
  "split_skip_empty sep s = filter (\<lambda>w. w \<noteq> []) (split_keep sep s)"

text \<open>\<^verbatim>\<open>QStringList::join(sep)\<close>.\<close>

fun join :: "char \<Rightarrow> string list \<Rightarrow> string" where
  "join sep [] = []"
| "join sep [x] = x"
| "join sep (x # y # ys) = x @ sep # join sep (y # ys)"

abbreviation newline :: char where
  "newline \<equiv> CHR 0x0A"

abbreviation slash :: char where
  "slash \<equiv> CHR ''/''"

section \<open>The separator prefix tree\<close>

text \<open>
  Modelled from the spec: \<^verbatim>\<open>SeparatorPrefixTree.h\<close> is not among the sources. A node has
  a terminal flag (its own path was inserted) and children keyed by path segment; the
  root stands for the empty path. The children are an association list, looked up with
  \<open>map_of\<close> and written with \<open>AList.update\<close>, so a level keeps the order in which its
  segments were first inserted.
\<close>

datatype node = Node (terminal: bool) (children: "(string \<times> node) list")

definition empty_tree :: node where
  "empty_tree = Node False []"

text \<open>
  Modelled from the spec: a path is split on the separator into segments, and empty
  segments (consecutive or trailing separators) are ignored.
\<close>

definition segments :: "string \<Rightarrow> string list" where
  "segments p = split_skip_empty slash p"

text \<open>
  Modelled from the spec: \<^verbatim>\<open>insert(path)\<close> of the prefix tree. It walks the segments,
  creating the nodes that are missing, and marks the last node terminal. Of the two
  policies the spec allows under a terminal ancestor, this is the one that still creates
  the node.
\<close>

fun insert_segs :: "string list \<Rightarrow> node \<Rightarrow> node" where
  "insert_segs [] (Node t cs) = Node True cs"
| "insert_segs (s # ss) (Node t cs) =
     Node t (AList.update s
       (insert_segs ss (case map_of cs s of None \<Rightarrow> Node False [] | Some c \<Rightarrow> c)) cs)"

definition insert_path :: "string \<Rightarrow> node \<Rightarrow> node" where
  "insert_path p t = insert_segs (segments p) t"

text \<open>
  Modelled from the spec: \<^verbatim>\<open>remove(path)\<close> of the prefix tree. It takes the terminal mark
  off the node of the exact path when there is one; descendants and ancestors keep theirs.
\<close>

fun remove_segs :: "string list \<Rightarrow> node \<Rightarrow> node" where
  "remove_segs [] (Node t cs) = Node False cs"
| "remove_segs (s # ss) (Node t cs) =
     (case map_of cs s of
        None \<Rightarrow> Node t cs
      | Some c \<Rightarrow> Node t (AList.update s (remove_segs ss c) cs))"

definition remove_path :: "string \<Rightarrow> node \<Rightarrow> node" where
  "remove_path p t = remove_segs (segments p) t"

text \<open>
  Modelled from the spec: \<^verbatim>\<open>covers(path)\<close> of the prefix tree. The path is a terminal
  node's path or lies under one; one lookup for each segment.
\<close>

fun covers_segs :: "node \<Rightarrow> string list \<Rightarrow> bool" where
  "covers_segs (Node t cs) [] = t"
| "covers_segs (Node t cs) (s # ss) =
     (t \<or> (case map_of cs s of None \<Rightarrow> False | Some c \<Rightarrow> covers_segs c ss))"

definition covers :: "node \<Rightarrow> string \<Rightarrow> bool" where
  "covers t p = covers_segs t (segments p)"

text \<open>
  Modelled from the spec: \<^verbatim>\<open>coveredPaths()\<close> of the prefix tree. Every terminal path,
  depth first, a node before its children, as lists of segments.
\<close>

fun terminal_paths :: "node \<Rightarrow> string list list" where
  "terminal_paths (Node t cs) =
     (if t then [[]] else []) @
     concat (map (\<lambda>sc. map ((#) (fst sc)) (terminal_paths (snd sc))) cs)"

text \<open>
  Modelled from the spec: \<^verbatim>\<open>toStringList()\<close> of the prefix tree, the proxy model's
  \<^verbatim>\<open>blockedPaths()\<close> as strings. The terminal paths, the segments joined by the separator.
\<close>

definition toStringList :: "node \<Rightarrow> string list" where
  "toStringList t = map (join slash) (terminal_paths t)"

text \<open>
  Modelled from the spec: the terminal nodes. The node of these segments exists and is
  terminal, which is to say that this exact path is blocked.
\<close>

fun is_terminal :: "node \<Rightarrow> string list \<Rightarrow> bool" where
  "is_terminal (Node t cs) [] = t"
| "is_terminal (Node t cs) (s # ss) =
     (case map_of cs s of None \<Rightarrow> False | Some c \<Rightarrow> is_terminal c ss)"

text \<open>
  The shape every tree built by \<open>insert_path\<close> and \<open>remove_path\<close> has: at each node the
  keys are distinct, non-empty and free of the separator.
\<close>

fun wf_tree :: "node \<Rightarrow> bool" where
  "wf_tree (Node t cs) =
     (distinct (map fst cs) \<and>
      list_all (\<lambda>sc. fst sc \<noteq> [] \<and> slash \<notin> set (fst sc) \<and> wf_tree (snd sc)) cs)"

section \<open>The export dialog\<close>

text \<open>
  What the dialog does to the world, in the order it does it: the calls it makes on its
  collaborators (the destination picker, the icon copy, the enumeration, the archive
  writer, message boxes, the log, the file system, the proxy model, the tree view).
\<close>

datatype event =
    GetSaveFileName
  | SaveIcon
  | CollectFileList
  | CompressDirFiles string "string list"
  | MessageBoxWarning string string
  | FsWrite string string
  | QWarning string
  | SetBlockedPaths "string list"
  | TreeViewExpand int
  | QDialogDone int

text \<open>
  What the collaborators answer during one run: the instance's root, \<^verbatim>\<open>FS::PathCombine\<close>,
  the path the destination picker returns (empty when the user cancels), the relative
  paths of the files under the root as the enumeration meets them (\<open>None\<close> when the
  enumeration fails), whether the archive writer succeeds, and the cause of the
  exception \<^verbatim>\<open>FS::write\<close> throws (\<open>None\<close> when it writes).
\<close>

record env =
  instanceRoot :: string
  pathCombine :: "string \<Rightarrow> string \<Rightarrow> string"
  saveFileName :: string
  rootFiles :: "string list option"
  compressOk :: bool
  writeError :: "string option"

text \<open>
  The dialog's state: the proxy model's tree of blocked paths (the check state of an
  entry is computed from this tree, and is not stored), the text of the ignore file on
  disk (\<open>None\<close> when it is missing or cannot be opened for reading), and the events so far.
  The text is the file's bytes: a line feed is the byte \<open>0x0A\<close> in UTF-8 and no other
  character's encoding holds that byte, so the lines of the bytes are the lines of the
  decoded string.
\<close>

record dialog =
  blocked :: node
  packignore :: "string option"
  trace :: "event list"

definition emit :: "event \<Rightarrow> dialog \<Rightarrow> dialog" where
  "emit e st = st\<lparr>trace := trace st @ [e]\<rparr>"

text \<open>The events of a run: those of the state after it that the state before it had not.\<close>

definition new_events :: "dialog \<Rightarrow> dialog \<Rightarrow> event list" where
  "new_events st st' = drop (length (trace st)) (trace st')"

text \<open>The dialog codes \<^verbatim>\<open>QDialog::Accepted\<close> and \<^verbatim>\<open>QDialog::Rejected\<close>.\<close>

definition Accepted :: int where
  "Accepted = 1"

definition Rejected :: int where
  "Rejected = 0"

text \<open>
  Modelled from the spec: \<^verbatim>\<open>FileIgnoreProxy::setBlockedPaths\<close> is not among the sources.
  It clears the tree and inserts each string again.
\<close>

definition setBlockedPaths :: "string list \<Rightarrow> dialog \<Rightarrow> dialog" where
  "setBlockedPaths ps st =
     emit (SetBlockedPaths ps) (st\<lparr>blocked := fold insert_path ps empty_tree\<rparr>)"

text \<open>
  Modelled from the spec: \<^verbatim>\<open>MMCZip::collectFileListRecursively\<close> is not among the sources.
  It fails when the enumeration does, and otherwise keeps, in order, the enumerated paths
  that the exclusion filter rejects.
\<close>

definition collectFileListRecursively ::
  "string list option \<Rightarrow> (string \<Rightarrow> bool) \<Rightarrow> string list option" where
  "collectFileListRecursively entries excludeFilter =
     map_option (filter (\<lambda>p. \<not> excludeFilter p)) entries"

text \<open>
  \<^verbatim>\<open>FS::write\<close>, whose code is not among the sources: it throws an \<^verbatim>\<open>Exception\<close> with a
  cause, as the environment says, or replaces the file's contents.
\<close>

definition FS_write :: "env \<Rightarrow> string \<Rightarrow> string \<Rightarrow> dialog \<Rightarrow> string + dialog" where
  "FS_write e filename data st =
     (case writeError e of
        Some cause \<Rightarrow> Inl cause
      | None \<Rightarrow> Inr (st\<lparr>packignore := Some data\<rparr>))"

definition ignoreFileName :: "env \<Rightarrow> string" where
  "ignoreFileName e = pathCombine e (instanceRoot e) ''.packignore''"

definition loadPackIgnore :: "env \<Rightarrow> dialog \<Rightarrow> dialog" where
  "loadPackIgnore e st =
     (case packignore st of
        None \<Rightarrow> st
      | Some string \<Rightarrow> setBlockedPaths (split_skip_empty newline string) st)"

definition savePackIgnore :: "env \<Rightarrow> dialog \<Rightarrow> dialog" where
  "savePackIgnore e st =
     (let data = join newline (toStringList (blocked st));
          filename = ignoreFileName e;
          st1 = emit (FsWrite filename data) st
      in case FS_write e filename data st1 of
           Inl cause \<Rightarrow> emit (QWarning cause) st1
         | Inr st2 \<Rightarrow> st2)"

text \<open>
  The constructor: a new proxy model, whose tree is empty, and then \<open>loadPackIgnore\<close>.
  Its argument is the ignore file as the disk has it.
\<close>

definition ExportInstanceDialog :: "env \<Rightarrow> string option \<Rightarrow> dialog" where
  "ExportInstanceDialog e file =
     loadPackIgnore e \<lparr>blocked = empty_tree, packignore = file, trace = []\<rparr>"

definition doExport :: "env \<Rightarrow> dialog \<Rightarrow> bool \<times> dialog" where
  "doExport e st =
     (let output = saveFileName e;
          st1 = emit GetSaveFileName st
      in if output = [] then (False, st1)
         else
           let st2 = emit SaveIcon st1;
               st3 = emit CollectFileList st2
           in case collectFileListRecursively (rootFiles e) (covers (blocked st3)) of
                None \<Rightarrow>
                  (False, emit (MessageBoxWarning ''Error'' ''Unable to export instance'') st3)
              | Some files \<Rightarrow>
                  let st4 = emit (CompressDirFiles output files) st3
                  in if \<not> compressOk e
                     then (False,
                       emit (MessageBoxWarning ''Error'' ''Unable to export instance'') st4)
                     else (True, st4))"

definition done_dialog :: "env \<Rightarrow> int \<Rightarrow> dialog \<Rightarrow> dialog" where
  "done_dialog e result st =
     (let st1 = savePackIgnore e st
      in if result = Accepted
         then (case doExport e st1 of
                 (True, st2) \<Rightarrow> emit (QDialogDone Accepted) st2
               | (False, st2) \<Rightarrow> st2)
         else emit (QDialogDone result) st1)"

text \<open>
  \<open>rowsInserted\<close>: the loop over the rows, from the row \<^verbatim>\<open>top\<close> while \<open>i < bottom\<close>. The proxy
  model's \<^verbatim>\<open>shouldExpand\<close> and the validity of the row's parent index are parameters,
  by row.
\<close>

function rowsInserted_loop ::
  "(int \<Rightarrow> bool) \<Rightarrow> (int \<Rightarrow> bool) \<Rightarrow> int \<Rightarrow> int \<Rightarrow> dialog \<Rightarrow> dialog" where
  "rowsInserted_loop shouldExpand parentValid i bottom st =
     (if i < bottom
      then rowsInserted_loop shouldExpand parentValid (i + 1) bottom
             (if shouldExpand i
              then (if \<not> parentValid i then st else emit (TreeViewExpand i) st)
              else st)
      else st)"
  by pat_completeness auto
termination
  by (relation "measure (\<lambda>(se, pv, i, bottom, st). nat (bottom - i))") auto

definition rowsInserted ::
  "(int \<Rightarrow> bool) \<Rightarrow> (int \<Rightarrow> bool) \<Rightarrow> int \<Rightarrow> int \<Rightarrow> dialog \<Rightarrow> dialog" where
  "rowsInserted shouldExpand parentValid topRow bottom st =
     rowsInserted_loop shouldExpand parentValid topRow bottom st"

section \<open>Concrete runs\<close>

text \<open>An instance with three files, a destination chosen, and collaborators that succeed.\<close>

definition example_env :: env where
  "example_env =
     \<lparr>instanceRoot = ''/inst'', pathCombine = (\<lambda>a b. a @ slash # b),
      saveFileName = ''/home/u/pack.zip'',
      rootFiles = Some [''a.txt'', ''build/out/x.txt'', ''src/Main.java''],
      compressOk = True, writeError = None\<rparr>"

text \<open>The same with the picker cancelled, the enumeration failing, the write failing.\<close>

definition cancelled_env :: env where
  "cancelled_env = example_env\<lparr>saveFileName := []\<rparr>"

definition failing_env :: env where
  "failing_env = example_env\<lparr>rootFiles := None\<rparr>"

definition readonly_env :: env where
  "readonly_env = example_env\<lparr>writeError := Some ''read-only file system''\<rparr>"

text \<open>A dialog whose user has unchecked \<^verbatim>\<open>build\<close> and \<^verbatim>\<open>.git/hooks\<close>; no ignore file yet.\<close>

definition example_dialog :: dialog where
  "example_dialog =
     \<lparr>blocked = fold insert_path [''build'', ''.git/hooks''] empty_tree,
      packignore = None, trace = []\<rparr>"

text \<open>The operations that change the tree between two saves.\<close>

datatype tree_op = Insert string | Remove string

fun apply_op :: "tree_op \<Rightarrow> node \<Rightarrow> node" where
  "apply_op (Insert p) t = insert_path p t"
| "apply_op (Remove p) t = remove_path p t"

text \<open>A dialog whose user has unchecked a file with a line feed in its name.\<close>

definition newline_dialog :: dialog where
  "newline_dialog =
     \<lparr>blocked = insert_path [CHR ''a'', newline, CHR ''b''] empty_tree,
      packignore = None, trace = []\<rparr>"

text \<open>An ignore file with a blank line in the middle and a line feed at the end.\<close>

definition blank_lines_text :: string where
  "blank_lines_text = ''build'' @ [newline, newline] @ ''.git/hooks'' @ [newline]"

section \<open>Splitting and joining\<close>

lemma split_keep_not_Nil: "split_keep sep s \<noteq> []"
  by (induction s) (auto split: list.splits)

lemma split_keep_no_sep: "sep \<notin> set s \<Longrightarrow> split_keep sep s = [s]"
  by (induction s) auto

lemma split_keep_sep_append:
  "split_keep sep (a @ sep # b) = split_keep sep a @ split_keep sep b"
proof (induction a)
  case Nil
  show ?case by simp
next
  case (Cons c a)
  obtain w ws where w: "split_keep sep a = w # ws"
    using split_keep_not_Nil [of sep a] by (cases "split_keep sep a") auto
  show ?case using Cons w by simp
qed

lemma split_keep_pieces: "w \<in> set (split_keep sep s) \<Longrightarrow> sep \<notin> set w"
  by (induction s arbitrary: w) (auto split: if_splits list.splits)

lemma join_split_keep: "join sep (split_keep sep s) = s"
proof (induction s)
  case Nil
  show ?case by simp
next
  case (Cons c s)
  obtain w ws where w: "split_keep sep s = w # ws"
    using split_keep_not_Nil [of sep s] by (cases "split_keep sep s") auto
  show ?case using Cons w by (cases ws) auto
qed

lemma split_keep_join:
  "xs \<noteq> [] \<Longrightarrow> \<forall>x\<in>set xs. sep \<notin> set x \<Longrightarrow> split_keep sep (join sep xs) = xs"
proof (induction sep xs rule: join.induct)
  case (3 sep x y ys)
  then show ?case by (simp add: split_keep_sep_append split_keep_no_sep)
qed (simp_all add: split_keep_no_sep)

lemma split_skip_empty_join:
  "\<forall>x\<in>set xs. sep \<notin> set x \<Longrightarrow> split_skip_empty sep (join sep xs) = filter (\<lambda>w. w \<noteq> []) xs"
  by (cases "xs = []") (simp_all add: split_skip_empty_def split_keep_join)

lemma set_join: "set (join sep xs) \<subseteq> insert sep (\<Union> (set ` set xs))"
  by (induction sep xs rule: join.induct) auto

lemma set_join_sub: "x \<in> set xs \<Longrightarrow> set x \<subseteq> set (join sep xs)"
  by (induction sep xs rule: join.induct) auto

lemma join_eq_Nil: "join sep xs = [] \<longleftrightarrow> (xs = [] \<or> xs = [[]])"
  by (induction sep xs rule: join.induct) auto

section \<open>Properties of the prefix tree\<close>

lemma is_terminal_leaf [simp]: "\<not> is_terminal (Node False []) q"
  by (cases q) simp_all

lemma is_terminal_insert_segs:
  "is_terminal (insert_segs ss t) q \<longleftrightarrow> q = ss \<or> is_terminal t q"
proof (induction ss arbitrary: t q)
  case Nil
  show ?case by (cases t; cases q) auto
next
  case (Cons s ss)
  show ?case
    by (cases t; cases q) (auto simp: AList.update_conv' Cons split: option.splits)
qed

lemma is_terminal_remove_segs:
  "is_terminal (remove_segs ss t) q \<longleftrightarrow> q \<noteq> ss \<and> is_terminal t q"
proof (induction ss arbitrary: t q)
  case Nil
  show ?case by (cases t; cases q) auto
next
  case (Cons s ss)
  show ?case
    by (cases t; cases q) (auto simp: AList.update_conv' Cons split: option.splits)
qed

lemma is_terminal_empty_tree: "\<not> is_terminal empty_tree q"
  by (cases q) (simp_all add: empty_tree_def)


lemma covers_segs_iff:
  "covers_segs t q \<longleftrightarrow> (\<exists>p. is_terminal t p \<and> prefix p q)"
proof (induction q arbitrary: t)
  case Nil
  show ?case by (cases t) auto
next
  case (Cons s ss)
  show ?case
  proof (cases t)
    case (Node b cs)
    show ?thesis
    proof
      assume "covers_segs t (s # ss)"
      then consider "b" | c where "map_of cs s = Some c" "covers_segs c ss"
        using Node by (auto split: option.splits)
      then show "\<exists>p. is_terminal t p \<and> prefix p (s # ss)"
      proof cases
        case 1
        then have "is_terminal t [] \<and> prefix [] (s # ss)" using Node by simp
        then show ?thesis by blast
      next
        case 2
        then obtain p where "is_terminal c p" "prefix p ss" using Cons by blast
        then have "is_terminal t (s # p) \<and> prefix (s # p) (s # ss)"
          using 2 Node by simp
        then show ?thesis by blast
      qed
    next
      assume "\<exists>p. is_terminal t p \<and> prefix p (s # ss)"
      then obtain p where p: "is_terminal t p" "prefix p (s # ss)" by blast
      show "covers_segs t (s # ss)"
      proof (cases p)
        case Nil
        then show ?thesis using p Node by simp
      next
        case (Cons s' p')
        then have "s' = s" "prefix p' ss" using p by simp_all
        then show ?thesis using p Cons Node \<open>\<And>t. covers_segs t ss = (\<exists>p. is_terminal t p \<and> prefix p ss)\<close>
          by (auto split: option.splits)
      qed
    qed
  qed
qed

lemma list_all_update:
  "list_all P al \<Longrightarrow> P (k, v) \<Longrightarrow> list_all P (AList.update k v al)"
  by (induction al) auto

lemma wf_tree_leaf: "wf_tree (Node False [])"
  by simp

lemma wf_tree_child:
  "wf_tree (Node b cs) \<Longrightarrow> map_of cs s = Some c \<Longrightarrow> s \<noteq> [] \<and> slash \<notin> set s \<and> wf_tree c"
  by (auto simp: list_all_iff dest!: map_of_SomeD)

lemma wf_tree_insert_segs:
  "wf_tree t \<Longrightarrow> \<forall>s\<in>set ss. s \<noteq> [] \<and> slash \<notin> set s \<Longrightarrow> wf_tree (insert_segs ss t)"
proof (induction ss arbitrary: t)
  case Nil
  then show ?case by (cases t) simp
next
  case (Cons s ss)
  obtain b cs where t: "t = Node b cs" by (cases t)
  let ?c = "case map_of cs s of None \<Rightarrow> Node False [] | Some c \<Rightarrow> c"
  have "wf_tree ?c"
    using Cons.prems(1) t wf_tree_child [of b cs s] by (cases "map_of cs s") auto
  then have c: "wf_tree (insert_segs ss ?c)"
    using Cons by simp
  have "distinct (map fst (AList.update s (insert_segs ss ?c) cs))"
    using Cons.prems(1) t by (simp add: AList.distinct_update)
  moreover have "list_all (\<lambda>sc. fst sc \<noteq> [] \<and> slash \<notin> set (fst sc) \<and> wf_tree (snd sc))
      (AList.update s (insert_segs ss ?c) cs)"
    using Cons.prems t c by (intro list_all_update) simp_all
  ultimately show ?case using t by simp
qed

lemma wf_tree_remove_segs: "wf_tree t \<Longrightarrow> wf_tree (remove_segs ss t)"
proof (induction ss arbitrary: t)
  case Nil
  then show ?case by (cases t) simp
next
  case (Cons s ss)
  obtain b cs where t: "t = Node b cs" by (cases t)
  show ?case
  proof (cases "map_of cs s")
    case None
    then show ?thesis using Cons.prems t by simp
  next
    case (Some c)
    have sc: "s \<noteq> [] \<and> slash \<notin> set s \<and> wf_tree c"
      using wf_tree_child Cons.prems t Some by blast
    then have c: "wf_tree (remove_segs ss c)" using Cons.IH by simp
    have "distinct (map fst (AList.update s (remove_segs ss c) cs))"
      using Cons.prems t by (simp add: AList.distinct_update)
    moreover have "list_all (\<lambda>sc. fst sc \<noteq> [] \<and> slash \<notin> set (fst sc) \<and> wf_tree (snd sc))
        (AList.update s (remove_segs ss c) cs)"
      using Cons.prems t c sc by (intro list_all_update) simp_all
    ultimately show ?thesis using t Some by simp
  qed
qed

lemma segments_pieces: "s \<in> set (segments p) \<Longrightarrow> s \<noteq> [] \<and> slash \<notin> set s"
  by (auto simp: segments_def split_skip_empty_def dest: split_keep_pieces)

lemma wf_tree_empty_tree: "wf_tree empty_tree"
  by (simp add: empty_tree_def)

lemma wf_tree_insert_path: "wf_tree t \<Longrightarrow> wf_tree (insert_path p t)"
  unfolding insert_path_def by (rule wf_tree_insert_segs) (auto dest: segments_pieces)

lemma wf_tree_remove_path: "wf_tree t \<Longrightarrow> wf_tree (remove_path p t)"
  unfolding remove_path_def by (rule wf_tree_remove_segs)

lemma wf_tree_fold_insert: "wf_tree t \<Longrightarrow> wf_tree (fold insert_path ps t)"
  by (induction ps arbitrary: t) (simp_all add: wf_tree_insert_path)

text \<open>Every tree that inserts and removes build from the empty tree is well formed.\<close>

lemma wf_tree_apply_op: "wf_tree t \<Longrightarrow> wf_tree (apply_op x t)"
  by (cases x) (simp_all add: wf_tree_insert_path wf_tree_remove_path)

lemma wf_tree_reachable: "wf_tree (fold apply_op ops empty_tree)"
proof -
  have "wf_tree t \<Longrightarrow> wf_tree (fold apply_op ops t)" for t
    by (induction ops arbitrary: t) (simp_all add: wf_tree_apply_op)
  then show ?thesis
    by (simp add: wf_tree_empty_tree)
qed

lemma wf_tree_setBlockedPaths: "wf_tree (blocked (setBlockedPaths ps st))"
  by (simp add: setBlockedPaths_def emit_def wf_tree_fold_insert wf_tree_empty_tree)

lemma is_terminal_fold_insert:
  "is_terminal (fold insert_path ps t) q \<longleftrightarrow> q \<in> segments ` set ps \<or> is_terminal t q"
  by (induction ps arbitrary: t) (auto simp: insert_path_def is_terminal_insert_segs)

lemma terminal_paths_iff:
  "wf_tree t \<Longrightarrow> q \<in> set (terminal_paths t) \<longleftrightarrow> is_terminal t q"
proof (induction q arbitrary: t)
  case Nil
  then show ?case by (cases t) auto
next
  case (Cons s ss)
  obtain b cs where t: "t = Node b cs" by (cases t)
  have d: "distinct (map fst cs)" using Cons.prems t by simp
  have "s # ss \<in> set (terminal_paths t) \<longleftrightarrow> (\<exists>c. (s, c) \<in> set cs \<and> ss \<in> set (terminal_paths c))"
    using t by (force split: if_splits)
  also have "\<dots> \<longleftrightarrow> (\<exists>c. map_of cs s = Some c \<and> ss \<in> set (terminal_paths c))"
    using d by simp
  also have "\<dots> \<longleftrightarrow> (\<exists>c. map_of cs s = Some c \<and> is_terminal c ss)"
    using Cons.IH wf_tree_child Cons.prems t by blast
  also have "\<dots> \<longleftrightarrow> is_terminal t (s # ss)"
    using t by (auto split: option.splits)
  finally show ?case .
qed

lemma is_terminal_segs:
  "wf_tree t \<Longrightarrow> is_terminal t q \<Longrightarrow> \<forall>s\<in>set q. s \<noteq> [] \<and> slash \<notin> set s"
proof (induction q arbitrary: t)
  case Nil
  show ?case by simp
next
  case (Cons s ss)
  obtain b cs where t: "t = Node b cs" by (cases t)
  obtain c where c: "map_of cs s = Some c" "is_terminal c ss"
    using Cons.prems(2) t by (auto split: option.splits)
  then have sc: "s \<noteq> [] \<and> slash \<notin> set s \<and> wf_tree c"
    using wf_tree_child Cons.prems(1) t by blast
  then have "\<forall>s\<in>set ss. s \<noteq> [] \<and> slash \<notin> set s"
    using Cons.IH [of c] c by simp
  then show ?case using sc by simp
qed

lemma segments_join:
  "\<forall>s\<in>set q. s \<noteq> [] \<and> slash \<notin> set s \<Longrightarrow> segments (join slash q) = q"
  by (simp add: segments_def split_skip_empty_join filter_id_conv)

lemma segments_append_slash: "segments (p @ slash # r) = segments p @ segments r"
  by (simp add: segments_def split_skip_empty_def split_keep_sep_append)

lemma covers_fold_insert:
  assumes "P \<in> set ps" "prefix (segments P) (segments Q)"
  shows "covers (fold insert_path ps t) Q"
proof -
  have "is_terminal (fold insert_path ps t) (segments P)"
    using assms(1) by (simp add: is_terminal_fold_insert)
  then show ?thesis
    unfolding covers_def covers_segs_iff using assms(2) by blast
qed

lemma is_terminal_rebuild:
  assumes "wf_tree t"
  shows "is_terminal (fold insert_path (toStringList t) empty_tree) q \<longleftrightarrow> is_terminal t q"
proof -
  have r: "segments (join slash r) = r" if "r \<in> set (terminal_paths t)" for r
  proof -
    have "is_terminal t r" using that assms by (simp add: terminal_paths_iff)
    then have "\<forall>s\<in>set r. s \<noteq> [] \<and> slash \<notin> set s" using assms by (rule is_terminal_segs [rotated])
    then show ?thesis by (rule segments_join)
  qed
  have "segments ` set (toStringList t) = (\<lambda>r. segments (join slash r)) ` set (terminal_paths t)"
    by (simp add: toStringList_def image_image)
  also have "\<dots> = (\<lambda>r. r) ` set (terminal_paths t)"
    by (rule image_cong) (simp_all add: r)
  finally have "segments ` set (toStringList t) = set (terminal_paths t)" by simp
  then have "is_terminal (fold insert_path (toStringList t) empty_tree) q \<longleftrightarrow>
      q \<in> set (terminal_paths t)"
    by (simp add: is_terminal_fold_insert is_terminal_empty_tree)
  then show ?thesis
    using assms by (simp add: terminal_paths_iff)
qed

lemma rebuild_same:
  assumes "wf_tree t"
  shows "set (toStringList (fold insert_path (toStringList t) empty_tree)) = set (toStringList t) \<and>
         covers (fold insert_path (toStringList t) empty_tree) q = covers t q"
proof -
  let ?t' = "fold insert_path (toStringList t) empty_tree"
  have wf': "wf_tree ?t'"
    by (rule wf_tree_fold_insert) (rule wf_tree_empty_tree)
  have "\<And>r. r \<in> set (terminal_paths ?t') \<longleftrightarrow> r \<in> set (terminal_paths t)"
    by (simp only: terminal_paths_iff [OF wf'] terminal_paths_iff [OF assms] is_terminal_rebuild [OF assms])
  then have "set (terminal_paths ?t') = set (terminal_paths t)"
    by blast
  then have "set (toStringList ?t') = set (toStringList t)"
    by (simp only: toStringList_def set_map)
  moreover have "covers ?t' q = covers t q"
    by (simp only: covers_def covers_segs_iff is_terminal_rebuild [OF assms])
  ultimately show ?thesis by simp
qed

lemma blocked_setBlockedPaths: "blocked (setBlockedPaths ps st) = fold insert_path ps empty_tree"
  by (simp add: setBlockedPaths_def emit_def)

lemma load_save:
  assumes "writeError e = None" "\<forall>p\<in>set (toStringList (blocked st)). p \<noteq> [] \<and> newline \<notin> set p"
  shows "blocked (loadPackIgnore e (savePackIgnore e st)) =
         fold insert_path (toStringList (blocked st)) empty_tree"
proof -
  have "packignore (savePackIgnore e st) = Some (join newline (toStringList (blocked st)))"
    using assms(1) by (simp add: savePackIgnore_def FS_write_def emit_def Let_def)
  moreover have "split_skip_empty newline (join newline (toStringList (blocked st))) =
      toStringList (blocked st)"
    using assms(2) by (simp add: split_skip_empty_join filter_id_conv)
  ultimately show ?thesis
    by (simp add: loadPackIgnore_def blocked_setBlockedPaths)
qed


section \<open>Properties of the dialog\<close>

lemma trace_emit: "trace (emit ev st) = trace st @ [ev]"
  by (simp add: emit_def)

lemma blocked_emit: "blocked (emit ev st) = blocked st"
  by (simp add: emit_def)

lemma packignore_emit: "packignore (emit ev st) = packignore st"
  by (simp add: emit_def)

lemma new_events_append: "trace st' = trace st @ evs \<Longrightarrow> new_events st st' = evs"
  by (simp add: new_events_def)

lemma covers_empty_tree: "\<not> covers empty_tree p"
  by (cases "segments p") (simp_all add: covers_def empty_tree_def)

lemma toStringList_empty_tree: "toStringList empty_tree = []"
  by (simp add: toStringList_def empty_tree_def)

text \<open>
  What \<open>doExport\<close> leaves behind: it only adds events, the first of them the call of
  the destination picker; the tree and the ignore file are as before.
\<close>

lemma doExport_frame:
  "(snd (doExport e st))\<lparr>trace := trace st\<rparr> = st"
  by (simp add: doExport_def emit_def collectFileListRecursively_def Let_def
      split: option.splits)

lemma doExport_packignore: "packignore (snd (doExport e st)) = packignore st"
  by (simp add: doExport_def emit_def collectFileListRecursively_def Let_def
      split: option.splits)

lemma doExport_trace:
  "\<exists>evs. trace (snd (doExport e st)) = trace st @ GetSaveFileName # evs"
  by (simp add: doExport_def emit_def collectFileListRecursively_def Let_def
      split: option.splits)

lemma savePackIgnore_trace:
  "trace (savePackIgnore e st) =
     trace st @ FsWrite (ignoreFileName e) (join newline (toStringList (blocked st))) #
       (case writeError e of None \<Rightarrow> [] | Some cause \<Rightarrow> [QWarning cause])"
  by (simp add: savePackIgnore_def FS_write_def emit_def Let_def split: option.splits)

lemma savePackIgnore_blocked: "blocked (savePackIgnore e st) = blocked st"
  by (simp add: savePackIgnore_def FS_write_def emit_def Let_def split: option.splits)

lemma savePackIgnore_packignore:
  "packignore (savePackIgnore e st) =
     (case writeError e of
        None \<Rightarrow> Some (join newline (toStringList (blocked st)))
      | Some cause \<Rightarrow> packignore st)"
  by (simp add: savePackIgnore_def FS_write_def emit_def Let_def split: option.splits)

text \<open>The rows the loop of \<open>rowsInserted\<close> looks at are \<open>top\<close>, ..., \<open>bottom - 1\<close>.\<close>

lemma rowsInserted_loop_trace:
  "trace (rowsInserted_loop se pv i bottom st) =
     trace st @ map TreeViewExpand (filter (\<lambda>j. se j \<and> pv j) [i..bottom - 1])"
proof (induction se pv i bottom st rule: rowsInserted_loop.induct)
  case (1 se pv i bottom st)
  show ?case
  proof (cases "i < bottom")
    case True
    then have u: "[i..bottom - 1] = i # [i + 1..bottom - 1]"
      by (simp add: upto_rec1)
    show ?thesis
      using True "1.IH" by (subst rowsInserted_loop.simps) (simp add: u trace_emit)
  next
    case False
    then show ?thesis by (subst rowsInserted_loop.simps) simp
  qed
qed

section \<open>The claims\<close>

text \<open>
  C1. When the destination is chosen and the enumeration succeeds, \<open>doExport\<close> calls the
  archive writer once, and the file list it hands over is the enumerated paths without
  those the tree of blocked paths covers, in the enumeration's order: a covered path is
  left out, any other path is kept.
\<close>

theorem doExport_files:
  "saveFileName e \<noteq> [] \<Longrightarrow> rootFiles e = Some allPaths \<Longrightarrow>
   new_events st (snd (doExport e st)) =
     [GetSaveFileName, SaveIcon, CollectFileList,
      CompressDirFiles (saveFileName e) (filter (\<lambda>p. \<not> covers (blocked st) p) allPaths)] @
     (if compressOk e then [] else [MessageBoxWarning ''Error'' ''Unable to export instance''])"
  by (simp add: doExport_def emit_def new_events_def collectFileListRecursively_def Let_def)

theorem doExport_files_witness:
  "saveFileName example_env \<noteq> [] \<and>
   rootFiles example_env = Some [''a.txt'', ''build/out/x.txt'', ''src/Main.java''] \<and>
   new_events example_dialog (snd (doExport example_env example_dialog)) =
     [GetSaveFileName, SaveIcon, CollectFileList,
      CompressDirFiles ''/home/u/pack.zip'' [''a.txt'', ''src/Main.java'']]"
proof -
  have h1: "saveFileName example_env \<noteq> []"
    by (simp add: example_env_def)
  have h2: "rootFiles example_env = Some [''a.txt'', ''build/out/x.txt'', ''src/Main.java'']"
    by (simp add: example_env_def)
  have c: "filter (\<lambda>p. \<not> covers (blocked example_dialog) p)
      [''a.txt'', ''build/out/x.txt'', ''src/Main.java''] = [''a.txt'', ''src/Main.java'']"
    by (simp add: example_dialog_def covers_def insert_path_def empty_tree_def segments_def
        split_skip_empty_def)
  show ?thesis
    using doExport_files [OF h1 h2, of example_dialog] h1 h2 c
    by (simp add: example_env_def)
qed

text \<open>
  C2. A batch of rows \<open>top..bottom\<close>, both ends included, under a valid parent, every row
  asking for expansion. The loop stops before \<open>bottom\<close>: a batch of the single row \<open>0\<close>
  expands nothing, and of the three rows \<open>0..2\<close> only the rows \<open>0\<close> and \<open>1\<close> are expanded.
\<close>

theorem rowsInserted_skips_last:
  "rowsInserted (\<lambda>i. True) (\<lambda>i. True) 0 0 st = st \<and>
   new_events st (rowsInserted (\<lambda>i. True) (\<lambda>i. True) 0 2 st) =
     [TreeViewExpand 0, TreeViewExpand 1]"
proof -
  have "rowsInserted (\<lambda>i. True) (\<lambda>i. True) 0 0 st = st"
    unfolding rowsInserted_def by (subst rowsInserted_loop.simps) simp
  moreover have "[0..(1::int)] = [0, 1]"
    by (simp add: upto_rec1)
  then have "new_events st (rowsInserted (\<lambda>i. True) (\<lambda>i. True) 0 2 st) =
     [TreeViewExpand 0, TreeViewExpand 1]"
    by (simp add: rowsInserted_def new_events_def rowsInserted_loop_trace trace_emit)
  ultimately show ?thesis by simp
qed

text \<open>
  C3, as stated, fails: a blocked path with a line feed in it is written as two lines,
  and read back as two paths. The set of blocked paths changes, and so does what is covered.
\<close>

theorem packignore_roundtrip_counterexample:
  "wf_tree (blocked newline_dialog) \<and> writeError example_env = None \<and>
   toStringList (blocked newline_dialog) = [[CHR ''a'', newline, CHR ''b'']] \<and>
   toStringList (blocked (loadPackIgnore example_env
      (savePackIgnore example_env newline_dialog))) = [''a'', ''b''] \<and>
   set (toStringList (blocked (loadPackIgnore example_env
      (savePackIgnore example_env newline_dialog)))) \<noteq>
     set (toStringList (blocked newline_dialog)) \<and>
   \<not> covers (blocked newline_dialog) ''a'' \<and>
   covers (blocked (loadPackIgnore example_env (savePackIgnore example_env newline_dialog))) ''a''"
  by (simp add: newline_dialog_def example_env_def loadPackIgnore_def savePackIgnore_def
      FS_write_def emit_def setBlockedPaths_def toStringList_def insert_path_def
      empty_tree_def segments_def split_skip_empty_def covers_def ignoreFileName_def Let_def)

text \<open>
  The empty path is lost in the same way: the root made terminal is written as an empty
  file, which reads back as no path at all.
\<close>

lemma packignore_roundtrip_empty_path:
  "toStringList (insert_path ''/'' empty_tree) = [[]] \<and>
   split_skip_empty newline (join newline (toStringList (insert_path ''/'' empty_tree))) = []"
  by (simp add: toStringList_def insert_path_def empty_tree_def segments_def
      split_skip_empty_def)

text \<open>
  C3, amended. For a well-formed tree of blocked paths, \<open>setBlockedPaths\<close> of the
  blocked paths gives a tree with the same blocked paths, as a set, that covers the same
  paths. When moreover the write succeeds and no blocked path is empty or holds a line
  feed, saving the ignore file and loading it gives such a tree too.
\<close>

theorem packignore_roundtrip:
  "wf_tree (blocked st) \<Longrightarrow>
   (set (toStringList (blocked (setBlockedPaths (toStringList (blocked st)) st))) =
      set (toStringList (blocked st)) \<and>
    covers (blocked (setBlockedPaths (toStringList (blocked st)) st)) q = covers (blocked st) q) \<and>
   (writeError e = None \<and> (\<forall>p\<in>set (toStringList (blocked st)). p \<noteq> [] \<and> newline \<notin> set p) \<longrightarrow>
      set (toStringList (blocked (loadPackIgnore e (savePackIgnore e st)))) =
        set (toStringList (blocked st)) \<and>
      covers (blocked (loadPackIgnore e (savePackIgnore e st))) q = covers (blocked st) q)"
  using rebuild_same [of "blocked st" q] load_save [of e st]
  by (simp add: blocked_setBlockedPaths)

theorem packignore_roundtrip_witness:
  "wf_tree (blocked example_dialog) \<and> writeError example_env = None \<and>
   toStringList (blocked example_dialog) = [''build'', ''.git/hooks''] \<and>
   set (toStringList (blocked (loadPackIgnore example_env
      (savePackIgnore example_env example_dialog)))) = {''build'', ''.git/hooks''} \<and>
   covers (blocked (loadPackIgnore example_env (savePackIgnore example_env example_dialog)))
      ''build/out/x.txt''"
proof -
  have t: "toStringList (blocked example_dialog) = [''build'', ''.git/hooks'']"
    by (simp add: example_dialog_def toStringList_def insert_path_def empty_tree_def
        segments_def split_skip_empty_def)
  have h1: "wf_tree (blocked example_dialog)"
    by (simp add: example_dialog_def insert_path_def empty_tree_def segments_def
        split_skip_empty_def)
  have h2: "writeError example_env = None"
    by (simp add: example_env_def)
  have h3: "\<forall>p\<in>set (toStringList (blocked example_dialog)). p \<noteq> [] \<and> newline \<notin> set p"
    by (simp add: t)
  have c: "covers (blocked example_dialog) ''build/out/x.txt''"
    by (simp add: example_dialog_def covers_def insert_path_def empty_tree_def segments_def
        split_skip_empty_def)
  show ?thesis
    using packignore_roundtrip [OF h1, where e = example_env and q = "''build/out/x.txt''"]
      h1 h2 h3 c t
    by simp
qed

text \<open>
  C4. After inserting the paths \<open>ps\<close> into any tree, each path \<open>P\<close> of \<open>ps\<close> is covered,
  and so is every path under it: \<open>P\<close>, a separator and anything, and more generally
  every path whose segments start with those of \<open>P\<close>. Coverage goes by segments: with
  \<^verbatim>\<open>build\<close> inserted into the empty tree, \<^verbatim>\<open>build/out/x.txt\<close> is covered and \<^verbatim>\<open>buildx\<close> is not.
\<close>

theorem covers_inserted:
  "(P \<in> set ps \<longrightarrow>
      covers (fold insert_path ps t) P \<and>
      covers (fold insert_path ps t) (P @ slash # R) \<and>
      (prefix (segments P) (segments Q) \<longrightarrow> covers (fold insert_path ps t) Q)) \<and>
   covers (insert_path ''build'' empty_tree) ''build/out/x.txt'' \<and>
   \<not> covers (insert_path ''build'' empty_tree) ''buildx''"
proof -
  have "covers (insert_path ''build'' empty_tree) ''build/out/x.txt''"
    by (simp add: covers_def insert_path_def empty_tree_def segments_def split_skip_empty_def)
  moreover have "\<not> covers (insert_path ''build'' empty_tree) ''buildx''"
    by (simp add: covers_def insert_path_def empty_tree_def segments_def split_skip_empty_def)
  moreover have "prefix (segments P) (segments (P @ slash # R))"
    by (simp add: segments_append_slash)
  ultimately show ?thesis
    using covers_fold_insert [of P ps] by blast
qed

theorem covers_inserted_witness:
  "''src/gen'' \<in> set [''build'', ''src/gen''] \<and>
   prefix (segments ''src/gen'') (segments ''src//gen/a/b.c'') \<and>
   covers (fold insert_path [''build'', ''src/gen''] empty_tree) ''src/gen'' \<and>
   covers (fold insert_path [''build'', ''src/gen''] empty_tree) ''src/gen/Main.java'' \<and>
   covers (fold insert_path [''build'', ''src/gen''] empty_tree) ''src//gen/a/b.c''"
proof -
  have m: "''src/gen'' \<in> set [''build'', ''src/gen'']" by simp
  have p: "prefix (segments ''src/gen'') (segments ''src//gen/a/b.c'')"
    by (simp add: segments_def split_skip_empty_def)
  show ?thesis
    using covers_inserted [of "''src/gen''" "[''build'', ''src/gen'']" empty_tree "''Main.java''" "''src//gen/a/b.c''"] m p
    by simp
qed

text \<open>
  C5. When the ignore file is missing or cannot be opened, \<open>loadPackIgnore\<close> returns the
  state it was given: no event (so no call of \<open>setBlockedPaths\<close>, no message, no
  warning), the tree untouched. The dialog constructed over such a file has the empty
  tree: it blocks no path and covers none.
\<close>

theorem loadPackIgnore_missing:
  "(packignore st = None \<longrightarrow> loadPackIgnore e st = st) \<and>
   ExportInstanceDialog e None = \<lparr>blocked = empty_tree, packignore = None, trace = []\<rparr> \<and>
   toStringList (blocked (ExportInstanceDialog e None)) = [] \<and>
   \<not> covers (blocked (ExportInstanceDialog e None)) p"
  by (simp add: loadPackIgnore_def ExportInstanceDialog_def covers_empty_tree
      toStringList_empty_tree)

theorem loadPackIgnore_missing_witness:
  "packignore example_dialog = None \<and>
   loadPackIgnore example_env example_dialog = example_dialog"
proof -
  have h: "packignore example_dialog = None"
    by (simp add: example_dialog_def)
  show ?thesis
    using loadPackIgnore_missing [of example_dialog example_env] h by simp
qed

text \<open>
  C6. When the destination is chosen and the enumeration or the archive writer fails,
  \<open>doExport\<close> returns false, the state differs from the one before in its events only
  (the tree of blocked paths, from which the check states are computed, is the same), and
  among the new events there is exactly one message box, the failure message.
\<close>

theorem doExport_failure:
  "saveFileName e \<noteq> [] \<Longrightarrow> rootFiles e = None \<or> \<not> compressOk e \<Longrightarrow>
   fst (doExport e st) = False \<and>
   (snd (doExport e st))\<lparr>trace := trace st\<rparr> = st \<and>
   blocked (snd (doExport e st)) = blocked st \<and>
   filter (\<lambda>ev. case ev of MessageBoxWarning a b \<Rightarrow> True | _ \<Rightarrow> False)
      (new_events st (snd (doExport e st))) =
     [MessageBoxWarning ''Error'' ''Unable to export instance'']"
  by (auto simp add: doExport_def emit_def new_events_def collectFileListRecursively_def Let_def
      split: option.splits)

theorem doExport_failure_witness:
  "saveFileName failing_env \<noteq> [] \<and> rootFiles failing_env = None \<and>
   doExport failing_env example_dialog =
     (False, example_dialog\<lparr>trace := [GetSaveFileName, SaveIcon, CollectFileList,
        MessageBoxWarning ''Error'' ''Unable to export instance'']\<rparr>) \<and>
   blocked (snd (doExport failing_env example_dialog)) = blocked example_dialog"
proof -
  have h1: "saveFileName failing_env \<noteq> []"
    by (simp add: failing_env_def example_env_def)
  have h2: "rootFiles failing_env = None"
    by (simp add: failing_env_def)
  have "doExport failing_env example_dialog =
     (False, example_dialog\<lparr>trace := [GetSaveFileName, SaveIcon, CollectFileList,
        MessageBoxWarning ''Error'' ''Unable to export instance'']\<rparr>)"
    by (simp add: doExport_def failing_env_def example_env_def emit_def
        collectFileListRecursively_def example_dialog_def)
  then show ?thesis
    using doExport_failure [OF h1 disjI1 [OF h2], of example_dialog] h1 h2 by simp
qed

text \<open>
  C7. When the ignore file can be read, \<open>loadPackIgnore\<close> calls \<open>setBlockedPaths\<close> once,
  with the lines of the text that are not empty, in order: the text is its lines joined
  by line feeds, no line holds a line feed, and the empty ones (two line feeds in a row,
  a line feed at the end) are dropped. There is no failing branch: the tree afterwards
  is the one built from these lines.
\<close>

theorem loadPackIgnore_skips_blank_lines:
  "packignore st = Some text \<Longrightarrow>
   new_events st (loadPackIgnore e st) =
     [SetBlockedPaths (filter (\<lambda>l. l \<noteq> []) (split_keep newline text))] \<and>
   join newline (split_keep newline text) = text \<and>
   (\<forall>l\<in>set (split_keep newline text). newline \<notin> set l) \<and>
   blocked (loadPackIgnore e st) =
     fold insert_path (filter (\<lambda>l. l \<noteq> []) (split_keep newline text)) empty_tree"
  by (auto simp add: loadPackIgnore_def setBlockedPaths_def emit_def new_events_def
      split_skip_empty_def join_split_keep dest: split_keep_pieces)

theorem loadPackIgnore_skips_blank_lines_witness:
  "packignore (example_dialog\<lparr>packignore := Some blank_lines_text\<rparr>) = Some blank_lines_text \<and>
   split_keep newline blank_lines_text = [''build'', [], ''.git/hooks'', []] \<and>
   new_events (example_dialog\<lparr>packignore := Some blank_lines_text\<rparr>)
     (loadPackIgnore example_env (example_dialog\<lparr>packignore := Some blank_lines_text\<rparr>)) =
     [SetBlockedPaths [''build'', ''.git/hooks'']]"
proof -
  have h: "packignore (example_dialog\<lparr>packignore := Some blank_lines_text\<rparr>) = Some blank_lines_text"
    by simp
  have s: "split_keep newline blank_lines_text = [''build'', [], ''.git/hooks'', []]"
    by (simp add: blank_lines_text_def)
  show ?thesis
    using loadPackIgnore_skips_blank_lines [OF h, of example_env] s by simp
qed

text \<open>
  C8. When \<^verbatim>\<open>FS::write\<close> throws, \<open>savePackIgnore\<close> returns the state with two more events,
  the write it tried and the warning with the exception's cause. \<open>done\<close> goes on: on
  accept the next event is the destination picker (the export is attempted, and the
  dialog completes if it succeeds), on any other result the dialog completes with it.
\<close>

theorem savePackIgnore_write_failure:
  "writeError e = Some cause \<Longrightarrow>
   savePackIgnore e st =
     st\<lparr>trace := trace st @
       [FsWrite (ignoreFileName e) (join newline (toStringList (blocked st))), QWarning cause]\<rparr> \<and>
   take 3 (new_events st (done_dialog e result st)) =
     [FsWrite (ignoreFileName e) (join newline (toStringList (blocked st))), QWarning cause,
      if result = Accepted then GetSaveFileName else QDialogDone result] \<and>
   (result \<noteq> Accepted \<longrightarrow>
      done_dialog e result st = emit (QDialogDone result) (savePackIgnore e st)) \<and>
   (result = Accepted \<longrightarrow>
      done_dialog e result st =
        (if fst (doExport e (savePackIgnore e st))
         then emit (QDialogDone Accepted) (snd (doExport e (savePackIgnore e st)))
         else snd (doExport e (savePackIgnore e st))))"
proof -
  assume w: "writeError e = Some cause"
  let ?f = "FsWrite (ignoreFileName e) (join newline (toStringList (blocked st)))"
  let ?st1 = "savePackIgnore e st"
  have s: "?st1 = st\<lparr>trace := trace st @ [?f, QWarning cause]\<rparr>"
    using w by (simp add: savePackIgnore_def FS_write_def emit_def Let_def)
  have t1: "trace ?st1 = trace st @ [?f, QWarning cause]"
    by (subst s) simp
  obtain evs where x: "trace (snd (doExport e ?st1)) = trace ?st1 @ GetSaveFileName # evs"
    using doExport_trace by blast
  have d: "done_dialog e result st =
     (if result = Accepted
      then (if fst (doExport e ?st1) then emit (QDialogDone Accepted) (snd (doExport e ?st1))
            else snd (doExport e ?st1))
      else emit (QDialogDone result) ?st1)"
    by (cases "doExport e ?st1") (auto simp: done_dialog_def Let_def split: bool.splits)
  have k: "take 3 (new_events st (done_dialog e result st)) =
     [?f, QWarning cause, if result = Accepted then GetSaveFileName else QDialogDone result]"
    by (simp add: d new_events_def trace_emit x t1)
  have c3: "result \<noteq> Accepted \<longrightarrow> done_dialog e result st = emit (QDialogDone result) ?st1"
    by (simp add: d)
  have c4: "result = Accepted \<longrightarrow>
      done_dialog e result st =
        (if fst (doExport e ?st1) then emit (QDialogDone Accepted) (snd (doExport e ?st1))
         else snd (doExport e ?st1))"
    using d by auto
  show ?thesis
    using s k c3 c4 by blast
qed

theorem savePackIgnore_write_failure_witness:
  "writeError readonly_env = Some ''read-only file system'' \<and>
   trace (savePackIgnore readonly_env example_dialog) =
     [FsWrite ''/inst/.packignore'' (''build'' @ [newline] @ ''.git/hooks''),
      QWarning ''read-only file system''] \<and>
   take 3 (new_events example_dialog (done_dialog readonly_env Accepted example_dialog)) =
     [FsWrite ''/inst/.packignore'' (''build'' @ [newline] @ ''.git/hooks''),
      QWarning ''read-only file system'', GetSaveFileName]"
proof -
  have h: "writeError readonly_env = Some ''read-only file system''"
    by (simp add: readonly_env_def)
  have f: "ignoreFileName readonly_env = ''/inst/.packignore''"
    by (simp add: ignoreFileName_def readonly_env_def example_env_def)
  have d: "join newline (toStringList (blocked example_dialog)) =
      ''build'' @ [newline] @ ''.git/hooks''"
    by (simp add: example_dialog_def toStringList_def insert_path_def empty_tree_def
        segments_def split_skip_empty_def)
  have t: "trace example_dialog = []"
    by (simp add: example_dialog_def)
  note w = savePackIgnore_write_failure [OF h, where st = example_dialog and result = Accepted]
  have "trace (savePackIgnore readonly_env example_dialog) =
     [FsWrite ''/inst/.packignore'' (''build'' @ [newline] @ ''.git/hooks''),
      QWarning ''read-only file system'']"
    by (subst conjunct1 [OF w]) (simp add: f d t)
  moreover have "take 3 (new_events example_dialog (done_dialog readonly_env Accepted example_dialog)) =
     [FsWrite ''/inst/.packignore'' (''build'' @ [newline] @ ''.git/hooks''),
      QWarning ''read-only file system'', GetSaveFileName]"
    by (subst conjunct1 [OF conjunct2 [OF w]]) (simp add: f d)
  ultimately show ?thesis
    using h by simp
qed

text \<open>
  C9. Whatever the result code and whatever the collaborators answer, the first thing
  \<open>done\<close> does is write the blocked paths, joined by line feeds, to the ignore file;
  when the write succeeds the file holds that text afterwards, whether the dialog was
  accepted or cancelled and whether the export worked.
\<close>

theorem done_saves_first:
  "take (length (trace st)) (trace (done_dialog e result st)) = trace st \<and>
   take 1 (new_events st (done_dialog e result st)) =
     [FsWrite (ignoreFileName e) (join newline (toStringList (blocked st)))] \<and>
   (writeError e = None \<longrightarrow>
      packignore (done_dialog e result st) =
        Some (join newline (toStringList (blocked st))))"
proof -
  let ?st1 = "savePackIgnore e st"
  let ?w = "case writeError e of None \<Rightarrow> [] | Some cause \<Rightarrow> [QWarning cause]"
  let ?f = "FsWrite (ignoreFileName e) (join newline (toStringList (blocked st)))"
  obtain evs where x: "trace (snd (doExport e ?st1)) = trace ?st1 @ GetSaveFileName # evs"
    using doExport_trace by blast
  have d: "done_dialog e result st =
     (if result = Accepted
      then (if fst (doExport e ?st1) then emit (QDialogDone Accepted) (snd (doExport e ?st1))
            else snd (doExport e ?st1))
      else emit (QDialogDone result) ?st1)"
    by (cases "doExport e ?st1") (auto simp: done_dialog_def Let_def split: bool.splits)
  have "\<exists>rest. trace (done_dialog e result st) = trace st @ ?f # rest"
    by (simp add: d trace_emit x savePackIgnore_trace)
  then obtain rest where r: "trace (done_dialog e result st) = trace st @ ?f # rest"
    by blast
  have p: "packignore (snd (doExport e ?st1)) = packignore ?st1"
    by (rule doExport_packignore)
  have "writeError e = None \<longrightarrow>
      packignore (done_dialog e result st) = Some (join newline (toStringList (blocked st)))"
    by (simp add: d packignore_emit p savePackIgnore_packignore)
  then show ?thesis
    using r by (simp add: new_events_def)
qed

theorem done_saves_first_witness:
  "writeError cancelled_env = None \<and>
   done_dialog cancelled_env Rejected example_dialog =
     \<lparr>blocked = blocked example_dialog,
      packignore = Some (''build'' @ [newline] @ ''.git/hooks''),
      trace = [FsWrite ''/inst/.packignore'' (''build'' @ [newline] @ ''.git/hooks''),
               QDialogDone Rejected]\<rparr> \<and>
   packignore (done_dialog cancelled_env Accepted example_dialog) =
     Some (''build'' @ [newline] @ ''.git/hooks'')"
proof -
  have h: "writeError cancelled_env = None"
    by (simp add: cancelled_env_def example_env_def)
  have f: "ignoreFileName cancelled_env = ''/inst/.packignore''"
    by (simp add: ignoreFileName_def cancelled_env_def example_env_def)
  have d: "join newline (toStringList (blocked example_dialog)) =
      ''build'' @ [newline] @ ''.git/hooks''"
    by (simp add: example_dialog_def toStringList_def insert_path_def empty_tree_def
        segments_def split_skip_empty_def)
  have r: "done_dialog cancelled_env Rejected example_dialog =
     \<lparr>blocked = blocked example_dialog,
      packignore = Some (''build'' @ [newline] @ ''.git/hooks''),
      trace = [FsWrite ''/inst/.packignore'' (''build'' @ [newline] @ ''.git/hooks''),
               QDialogDone Rejected]\<rparr>"
    by (simp add: done_dialog_def savePackIgnore_def FS_write_def emit_def Let_def h f d
        Accepted_def Rejected_def) (simp add: example_dialog_def)
  show ?thesis
    using done_saves_first [where st = example_dialog and e = cancelled_env and result = Accepted] h r d by simp
qed

text \<open>
  C10. When the destination picker returns the empty path, \<open>doExport\<close> returns false and
  the only event is the picker's call: no icon is saved, nothing is enumerated or
  filtered, no message box is shown.
\<close>

theorem doExport_cancelled:
  "saveFileName e = [] \<Longrightarrow>
   doExport e st = (False, st\<lparr>trace := trace st @ [GetSaveFileName]\<rparr>) \<and>
   new_events st (snd (doExport e st)) = [GetSaveFileName]"
  by (simp add: doExport_def emit_def new_events_def)

theorem doExport_cancelled_witness:
  "saveFileName cancelled_env = [] \<and>
   doExport cancelled_env example_dialog =
     (False, example_dialog\<lparr>trace := [GetSaveFileName]\<rparr>)"
proof -
  have h: "saveFileName cancelled_env = []"
    by (simp add: cancelled_env_def)
  have t: "trace example_dialog = []"
    by (simp add: example_dialog_def)
  show ?thesis
    using doExport_cancelled [OF h, of example_dialog] h t by simp
qed

end
